theory Spec2Isabelle
  imports Complex_Main "HOL-Library.Sublist" "HOL-Library.AList"
begin

section \<open>Values exchanged with the product table\<close>

text \<open>
  The product service (\<^verbatim>\<open>src/product/index_after.js\<close>) parses request bodies with
  \<^verbatim>\<open>JSON.parse\<close>, converts them with \<^verbatim>\<open>marshall\<close> and sends them to a DynamoDB table
  whose partition key is the string attribute \<^verbatim>\<open>id\<close>.

  A parsed JSON value is a \<open>json\<close>; a JavaScript object is the list of its own properties
  in the order \<^verbatim>\<open>Object.keys\<close> reports them (keys are distinct in a real object).
  A number is the exact rational its text denotes. \<^verbatim>\<open>JSON.parse\<close> rounds it to the
  nearest double; the model keeps the exact value and accounts for the rounding where the
  code branches on the number, in the test against the safe integers. A literal beyond the
  range of doubles, which \<^verbatim>\<open>JSON.parse\<close> reads as an infinity, is a rational beyond the
  safe integers, and the library refuses both.
\<close>

datatype json =
    JNull
  | JBool bool
  | JNum rat
  | JStr string
  | JArr "json list"
  | JObj "(string \<times> json) list"

datatype attr =
    NULL
  | BOOL bool
  | N rat
  | S string
  | L "attr list"
  | M "(string \<times> attr) list"

type_synonym 'v js_object = "(string \<times> 'v) list"

text \<open>An item as the table holds and returns it: attribute names to attribute values.\<close>

type_synonym item = "string \<rightharpoonup> attr"

text \<open>The table, keyed by the value of the partition key \<^verbatim>\<open>id\<close>.\<close>

type_synonym table = "string \<rightharpoonup> item"


text \<open>
  What the service can throw: the \<open>SyntaxError\<close> of \<^verbatim>\<open>JSON.parse\<close>, a JavaScript
  \<open>TypeError\<close>, the plain \<open>Error\<close> of the marshalling library, and the
  \<open>ValidationException\<close> of the store.
\<close>

datatype error = SyntaxError | TypeError | Error | ValidationException

text \<open>\<^verbatim>\<open>Number.MAX_SAFE_INTEGER\<close>; \<^verbatim>\<open>Number.MIN_SAFE_INTEGER\<close> is its negation.\<close>

definition MAX_SAFE_INTEGER :: rat where
  "MAX_SAFE_INTEGER = 9007199254740991"

text \<open>
  Whether the library finds a number outside the safe integers. It compares the double that
  \<^verbatim>\<open>JSON.parse\<close> read, the one nearest to the value of the text: that double is greater
  than \<^verbatim>\<open>Number.MAX_SAFE_INTEGER\<close> exactly when the value is at least half a unit above
  it (the value halfway is rounded to the even neighbour, \<open>2\<^sup>5\<^sup>3\<close>), and smaller than
  \<^verbatim>\<open>Number.MIN_SAFE_INTEGER\<close> in the same way.
\<close>

definition unsafe_number :: "rat \<Rightarrow> bool" where
  "unsafe_number n =
     (n \<ge> MAX_SAFE_INTEGER + 1 / 2 \<or> n \<le> - MAX_SAFE_INTEGER - 1 / 2)"

text \<open>A loop that converts the elements in order and stops at the first throw.\<close>

fun collect :: "(error + 'a) list \<Rightarrow> error + 'a list" where
  "collect [] = Inr []"
| "collect (Inl e # rs) = Inl e"
| "collect (Inr a # rs) = (case collect rs of Inl e \<Rightarrow> Inl e | Inr as \<Rightarrow> Inr (a # as))"

fun collect_entries :: "(string \<times> (error + 'a)) list \<Rightarrow> error + (string \<times> 'a) list" where
  "collect_entries [] = Inr []"
| "collect_entries ((k, Inl e) # rs) = Inl e"
| "collect_entries ((k, Inr a) # rs) =
     (case collect_entries rs of Inl e \<Rightarrow> Inl e | Inr as \<Rightarrow> Inr ((k, a) # as))"

text \<open>
  An assignment \<^verbatim>\<open>map[key] = value\<close> with the key \<^verbatim>\<open>__proto__\<close> sets the prototype of
  the object and adds no property: the converted objects lose such an entry.
\<close>

definition own_properties :: "'v js_object \<Rightarrow> 'v js_object" where
  "own_properties kvs = filter (\<lambda>(k, v). k \<noteq> ''__proto__'') kvs"

text \<open>JavaScript truthiness of a parsed value.\<close>

fun truthy :: "json \<Rightarrow> bool" where
  "truthy JNull = False"
| "truthy (JBool b) = b"
| "truthy (JNum n) = (n \<noteq> 0)"
| "truthy (JStr s) = (s \<noteq> [])"
| "truthy (JArr xs) = True"
| "truthy (JObj kvs) = True"

text \<open>\<^verbatim>\<open>c.name\<close> when it is a string: only an object with such a property has one.\<close>

fun name_of :: "json \<Rightarrow> string option" where
  "name_of (JObj cs) = (case map_of cs ''name'' of Some (JStr s) \<Rightarrow> Some s | _ \<Rightarrow> None)"
| "name_of _ = None"

text \<open>
  \<^verbatim>\<open>convertToAttr\<close> of \<^verbatim>\<open>@aws-sdk/util-dynamodb\<close> on an object, given its entries
  already converted. The library looks at \<^verbatim>\<open>data.constructor\<close>. A parsed object without
  an own \<^verbatim>\<open>constructor\<close> entry is a plain \<^verbatim>\<open>Object\<close> and becomes a map, entry by
  entry; so does one whose entry is falsy or is an object named \<^verbatim>\<open>Object\<close>. An entry
  named \<^verbatim>\<open>Set\<close> or \<^verbatim>\<open>Map\<close> makes the library call methods the object does not have;
  one named \<^verbatim>\<open>String\<close> makes it store the text of the object. For every other entry the
  library throws \<^verbatim>\<open>Unsupported type passed\<close> or builds a binary, boolean or number
  attribute from the object, which is refused when the request is sent; the model reports
  \<open>Error\<close> for all of these.
\<close>

definition object_attr ::
  "json js_object \<Rightarrow> (string \<times> (error + attr)) list \<Rightarrow> error + attr" where
  "object_attr kvs converted =
     (let as_map = (case collect_entries converted of
                      Inl e \<Rightarrow> Inl e
                    | Inr m \<Rightarrow> Inr (M (own_properties m)))
      in case map_of kvs ''constructor'' of
           None \<Rightarrow> as_map
         | Some c \<Rightarrow>
             if name_of c = Some ''Set'' \<or> name_of c = Some ''Map'' then Inl TypeError
             else if name_of c = Some ''Object'' \<or> \<not> truthy c then as_map
             else if name_of c = Some ''String''
             then (if ''toString'' \<in> fst ` set kvs then Inl TypeError
                   else Inr (S ''[object Object]''))
             else Inl Error)"

text \<open>
  \<^verbatim>\<open>convertToAttr(data)\<close>: a number outside the safe integers makes the library throw,
  an array is converted element by element, an object as above.
\<close>

primrec convertToAttr :: "json \<Rightarrow> error + attr" where
  "convertToAttr JNull = Inr NULL"
| "convertToAttr (JBool b) = Inr (BOOL b)"
| "convertToAttr (JNum n) =
     (if unsafe_number n then Inl Error else Inr (N n))"
| "convertToAttr (JStr s) = Inr (S s)"
| "convertToAttr (JArr xs) =
     (case collect (map convertToAttr xs) of Inl e \<Rightarrow> Inl e | Inr as \<Rightarrow> Inr (L as))"
| "convertToAttr (JObj kvs) = object_attr kvs (map (map_prod id convertToAttr) kvs)"

text \<open>
  \<^verbatim>\<open>convertToNative(data)\<close>; a map loses an attribute named \<^verbatim>\<open>__proto__\<close>. A number
  attribute is read back as the number it holds: the numbers \<^verbatim>\<open>marshall\<close> writes are
  doubles within the safe integers, which the library returns as they are. What it does with
  the other numbers a table can hold (a \<^verbatim>\<open>BigInt\<close> for a larger one, an error for one
  that no double prints) is not modelled.
\<close>

primrec convertToNative :: "attr \<Rightarrow> json" where
  "convertToNative NULL = JNull"
| "convertToNative (BOOL b) = JBool b"
| "convertToNative (N n) = JNum n"
| "convertToNative (S s) = JStr s"
| "convertToNative (L xs) = JArr (map convertToNative xs)"
| "convertToNative (M kvs) = JObj (own_properties (map (map_prod id convertToNative) kvs))"

text \<open>
  \<^verbatim>\<open>marshall(obj)\<close>: the object converted, and the map of its attributes taken out. When
  the conversion gives something other than a map there is no item to send and the request
  built from it is refused; the model reports \<open>Error\<close>.
\<close>

definition marshall :: "json js_object \<Rightarrow> error + attr js_object" where
  "marshall obj =
     (case convertToAttr (JObj obj) of
        Inl e \<Rightarrow> Inl e
      | Inr (M m) \<Rightarrow> Inr m
      | Inr _ \<Rightarrow> Inl Error)"


text \<open>
  Whether converting a parsed value to a string throws, as a template literal
  \<^verbatim>\<open>`${value}`\<close> does it: an object with an own \<^verbatim>\<open>toString\<close> entry has no callable
  \<^verbatim>\<open>toString\<close> and its \<^verbatim>\<open>valueOf\<close> gives no primitive; an array joins the strings of
  its elements (null gives the empty string).
\<close>

primrec toString_throws :: "json \<Rightarrow> bool" where
  "toString_throws JNull = False"
| "toString_throws (JBool b) = False"
| "toString_throws (JNum n) = False"
| "toString_throws (JStr s) = False"
| "toString_throws (JArr xs) = (True \<in> set (map toString_throws xs))"
| "toString_throws (JObj kvs) = (''toString'' \<in> fst ` set kvs)"

text \<open>
  The values \<^verbatim>\<open>marshall\<close> converts one for one: numbers within the safe integers, and
  objects without an own \<^verbatim>\<open>constructor\<close> or \<^verbatim>\<open>__proto__\<close> entry, at every depth.
\<close>

primrec plain :: "json \<Rightarrow> bool" where
  "plain JNull = True"
| "plain (JBool b) = True"
| "plain (JNum n) = (\<not> unsafe_number n)"
| "plain (JStr s) = True"
| "plain (JArr xs) = list_all (\<lambda>b. b) (map plain xs)"
| "plain (JObj kvs) =
     (''constructor'' \<notin> fst ` set kvs \<and> ''__proto__'' \<notin> fst ` set kvs \<and>
      list_all snd (map (map_prod id plain) kvs))"

text \<open>
  The decimal text of an array index, as the template literals \<^verbatim>\<open>`#key${index}`\<close> and
  \<^verbatim>\<open>`:value${index}`\<close> print it.
\<close>

definition digit_char :: "nat \<Rightarrow> char" where
  "digit_char d = ''0123456789'' ! (d mod 10)"

fun decimal :: "nat \<Rightarrow> string" where
  "decimal n = (if n < 10 then [] else decimal (n div 10)) @ [digit_char n]"

declare decimal.simps [simp del]

text \<open>
  \<^verbatim>\<open>Object.keys(requestBody)\<close>, each key paired with \<^verbatim>\<open>requestBody[key]\<close>.
  \<^verbatim>\<open>Object.keys(null)\<close> throws a TypeError; a number or a boolean has no own keys; a
  string and an array have their indices.
\<close>

fun own_entries :: "json \<Rightarrow> error + json js_object" where
  "own_entries JNull = Inl TypeError"
| "own_entries (JBool b) = Inr []"
| "own_entries (JNum n) = Inr []"
| "own_entries (JStr s) = Inr (map (\<lambda>i. (decimal i, JStr [s ! i])) [0..<length s])"
| "own_entries (JArr xs) = Inr (map (\<lambda>i. (decimal i, xs ! i)) [0..<length xs])"
| "own_entries (JObj kvs) = Inr kvs"

section \<open>The store behind \<^verbatim>\<open>ddbClient\<close>\<close>

text \<open>
  The expressions the service sends, as syntax trees:
  \<^item> \<open>SET cs\<close> is \<^verbatim>\<open>SET n1 = v1, n2 = v2, ...\<close>, one pair of placeholders per clause;
    \<open>SET []\<close> is the text \<^verbatim>\<open>"SET "\<close>, which has no clause;
  \<^item> \<open>KeyEquals a v\<close> is \<^verbatim>\<open>a = v\<close>;
  \<^item> \<open>Contains a v\<close> is \<^verbatim>\<open>contains (a, v)\<close>.
\<close>

datatype update_expression = SET "(string \<times> string) list"

datatype key_condition = KeyEquals string string

datatype filter_expression = Contains string string

text \<open>
  The commands of \<^verbatim>\<open>@aws-sdk/client-dynamodb\<close> the service uses, with the parameters
  it sets (the table name is the one table of the service):
  \<^item> \<open>GetItemCommand Key\<close>, \<open>PutItemCommand Item\<close>, \<open>DeleteItemCommand Key\<close>;
  \<^item> \<open>UpdateItemCommand Key UpdateExpression ExpressionAttributeNames
    ExpressionAttributeValues\<close>;
  \<^item> \<open>QueryCommand KeyConditionExpression FilterExpression ExpressionAttributeValues\<close>.
\<close>

datatype command =
    GetItemCommand "attr js_object"
  | PutItemCommand "attr js_object"
  | DeleteItemCommand "attr js_object"
  | UpdateItemCommand "attr js_object" update_expression "string js_object" "attr js_object"
  | QueryCommand key_condition filter_expression "attr js_object"

text \<open>
  The response object: \<open>Item\<close> and \<open>Items\<close> are the properties the service
  destructures; \<open>None\<close> is \<^verbatim>\<open>undefined\<close>. The remaining metadata is not modelled.
\<close>

record response =
  Item :: "item option"
  Items :: "item list option"

definition metadata_only :: response where
  "metadata_only = \<lparr>Item = None, Items = None\<rparr>"

text \<open>The key of a request: exactly the attribute \<^verbatim>\<open>id\<close>, a string.\<close>

fun key_of :: "attr js_object \<Rightarrow> string option" where
  "key_of [(a, S k)] = (if a = ''id'' then Some k else None)"
| "key_of _ = None"

text \<open>The key of an item to put: its attribute \<^verbatim>\<open>id\<close>, which must be a string.\<close>

definition item_key :: "attr js_object \<Rightarrow> string option" where
  "item_key obj = (case map_of obj ''id'' of Some (S k) \<Rightarrow> Some k | _ \<Rightarrow> None)"

text \<open>
  The clauses of a \<open>SET\<close> expression with their placeholders replaced: attribute name and
  new value of every clause, or \<open>None\<close> when a placeholder is not defined.
\<close>

fun resolve ::
  "(string \<rightharpoonup> string) \<Rightarrow> (string \<rightharpoonup> attr) \<Rightarrow> (string \<times> string) list
     \<Rightarrow> (string \<times> attr) list option" where
  "resolve names vals [] = Some []"
| "resolve names vals ((n, v) # cs) =
     (case (names n, vals v, resolve names vals cs) of
        (Some a, Some x, Some rest) \<Rightarrow> Some ((a, x) # rest)
      | _ \<Rightarrow> None)"

text \<open>
  The function \<^verbatim>\<open>contains (path, operand)\<close> of filter expressions: a string attribute
  contains the operand as a substring, a list attribute contains it as an element; a missing
  attribute and any other type do not contain it.
\<close>

fun attr_contains :: "attr option \<Rightarrow> attr \<Rightarrow> bool" where
  "attr_contains (Some (S s)) (S sub) = sublist sub s"
| "attr_contains (Some (L xs)) v = (v \<in> set xs)"
| "attr_contains _ _ = False"

text \<open>
  Modelled from the spec: \<^verbatim>\<open>src/product/ddbClient.js\<close> and the store it connects to
  are not under src/. The spec (sections 4.1 and 6) gives the store a point lookup
  \<^verbatim>\<open>get(key)\<close> whose miss is an empty result, a full-record \<^verbatim>\<open>put(key, record)\<close>, an
  \<^verbatim>\<open>update(key, partialFields)\<close> that merges the supplied fields and creates the record
  when absent, an unconditional \<^verbatim>\<open>delete(key)\<close> and a \<^verbatim>\<open>query\<close> by key equality with
  a filter, all atomic per key. The source adds what the update refuses: it cannot change the
  primary key \<^verbatim>\<open>id\<close>, and the \<open>SET\<close> expression it receives needs at least one clause
  with resolvable, non-overlapping attribute names. A refused request is a
  \<open>ValidationException\<close> and leaves the table as it was. Transport failures, capacity and
  size limits are not modelled: the store answers every call.
\<close>

fun send :: "command \<Rightarrow> table \<Rightarrow> (error + response) \<times> table" where
  "send (GetItemCommand Key) tbl =
     (case key_of Key of
        None \<Rightarrow> (Inl ValidationException, tbl)
      | Some k \<Rightarrow> (Inr \<lparr>Item = tbl k, Items = None\<rparr>, tbl))"
| "send (PutItemCommand obj) tbl =
     (case item_key obj of
        None \<Rightarrow> (Inl ValidationException, tbl)
      | Some k \<Rightarrow> (Inr metadata_only, tbl(k \<mapsto> map_of obj)))"
| "send (DeleteItemCommand Key) tbl =
     (case key_of Key of
        None \<Rightarrow> (Inl ValidationException, tbl)
      | Some k \<Rightarrow> (Inr metadata_only, tbl(k := None)))"
| "send (UpdateItemCommand Key (SET clauses) names vals) tbl =
     (case key_of Key of
        None \<Rightarrow> (Inl ValidationException, tbl)
      | Some k \<Rightarrow>
          if clauses = [] then (Inl ValidationException, tbl)
          else
            (case resolve (map_of names) (map_of vals) clauses of
               None \<Rightarrow> (Inl ValidationException, tbl)
             | Some asg \<Rightarrow>
                 if ''id'' \<in> set (map fst asg) \<or> \<not> distinct (map fst asg)
                 then (Inl ValidationException, tbl)
                 else
                   (Inr metadata_only,
                    tbl(k \<mapsto> (case tbl k of None \<Rightarrow> map_of Key | Some it \<Rightarrow> it)
                                ++ map_of asg))))"
| "send (QueryCommand (KeyEquals a p) (Contains path q) vals) tbl =
     (if a \<noteq> ''id'' then (Inl ValidationException, tbl)
      else
        (case (map_of vals p, map_of vals q) of
           (Some (S k), Some operand) \<Rightarrow>
             (Inr \<lparr>Item = None,
                   Items = Some (case tbl k of
                                   None \<Rightarrow> []
                                 | Some it \<Rightarrow>
                                     if attr_contains (it path) operand then [it] else [])\<rparr>,
              tbl)
         | _ \<Rightarrow> (Inl ValidationException, tbl)))"

section \<open>The product service\<close>

text \<open>
  The parts of the Lambda event the operations read. \<open>pathParameters\<close> is \<open>None\<close> when
  the event has \<^verbatim>\<open>pathParameters: null\<close> and otherwise holds the \<^verbatim>\<open>id\<close> of the route
  \<^verbatim>\<open>/product/{id}\<close>; \<open>queryStringParameters\<close> likewise holds the \<^verbatim>\<open>category\<close>
  parameter. \<open>body\<close> is what \<^verbatim>\<open>JSON.parse(event.body)\<close> yields, \<open>None\<close> when it throws.
\<close>

record event =
  pathParameters :: "string option"
  queryStringParameters :: "string option"
  body :: "json option"


text \<open>
  \<^verbatim>\<open>uuidv4()\<close> of the \<^verbatim>\<open>uuid\<close> package: sixteen random bytes, the version and
  variant bits set in bytes 6 and 8, printed as lower-case hexadecimal digits in groups of
  4, 2, 2, 2 and 6 bytes joined by hyphens. \<open>rnds\<close> gives the random byte at each index.
\<close>

definition hex_digit :: "nat \<Rightarrow> char" where
  "hex_digit d = ''0123456789abcdef'' ! (d mod 16)"

definition byteToHex :: "nat \<Rightarrow> string" where
  "byteToHex b = [hex_digit (b mod 256 div 16), hex_digit (b mod 16)]"

definition uuid_bytes :: "(nat \<Rightarrow> nat) \<Rightarrow> nat \<Rightarrow> nat" where
  "uuid_bytes rnds i =
     (if i = 6 then rnds i mod 16 + 64
      else if i = 8 then rnds i mod 64 + 128
      else rnds i mod 256)"

definition uuidv4 :: "(nat \<Rightarrow> nat) \<Rightarrow> string" where
  "uuidv4 rnds =
     concat (map (\<lambda>i. byteToHex (uuid_bytes rnds i)) [0..<4]) @ ''-'' @
     concat (map (\<lambda>i. byteToHex (uuid_bytes rnds i)) [4..<6]) @ ''-'' @
     concat (map (\<lambda>i. byteToHex (uuid_bytes rnds i)) [6..<8]) @ ''-'' @
     concat (map (\<lambda>i. byteToHex (uuid_bytes rnds i)) [8..<10]) @ ''-'' @
     concat (map (\<lambda>i. byteToHex (uuid_bytes rnds i)) [10..<16])"

text \<open>
  \<^verbatim>\<open>createProduct(event)\<close>; \<open>rnds\<close> is the randomness its call of \<^verbatim>\<open>uuidv4()\<close>
  draws. Assigning \<^verbatim>\<open>productRequest.id\<close> replaces an \<^verbatim>\<open>id\<close> of the body or adds the
  property; \<^verbatim>\<open>marshall\<close> then converts the object or throws. The assignment throws on a
  null body and, the file being a module, on a number, a string or a boolean. An array
  marshalls to a list, which is no item with a key and is refused by the store.
\<close>

definition createProduct ::
  "(nat \<Rightarrow> nat) \<Rightarrow> event \<Rightarrow> table \<Rightarrow> (error + response) \<times> table" where
  "createProduct rnds ev tbl =
     (case body ev of
        None \<Rightarrow> (Inl SyntaxError, tbl)
      | Some (JObj productRequest) \<Rightarrow>
          (let productId = uuidv4 rnds
           in case marshall (AList.update ''id'' (JStr productId) productRequest) of
                Inl e \<Rightarrow> (Inl e, tbl)
              | Inr obj \<Rightarrow> send (PutItemCommand obj) tbl)
      | Some (JArr xs) \<Rightarrow>
          (case convertToAttr (JArr xs) of
             Inl e \<Rightarrow> (Inl e, tbl)
           | Inr _ \<Rightarrow> (Inl ValidationException, tbl))
      | Some _ \<Rightarrow> (Inl TypeError, tbl))"

text \<open>\<^verbatim>\<open>deleteProduct(productId)\<close>.\<close>

definition deleteProduct :: "string \<Rightarrow> table \<Rightarrow> (error + response) \<times> table" where
  "deleteProduct productId tbl =
     (case marshall [(''id'', JStr productId)] of
        Inl e \<Rightarrow> (Inl e, tbl)
      | Inr Key \<Rightarrow> send (DeleteItemCommand Key) tbl)"

text \<open>
  The three generated parameters of \<^verbatim>\<open>updateProduct\<close>, from the entries of the body:
  the clauses \<^verbatim>\<open>#key<i> = :value<i>\<close>, the object that \<^verbatim>\<open>reduce\<close> builds from
  \<^verbatim>\<open>{...acc, [`#key${index}`]: key}\<close>, and the one it builds from
  \<^verbatim>\<open>{...acc, [`:value${index}`]: requestBody[key]}\<close>.
\<close>

definition key_placeholder :: "nat \<Rightarrow> string" where
  "key_placeholder index = ''#key'' @ decimal index"

definition value_placeholder :: "nat \<Rightarrow> string" where
  "value_placeholder index = '':value'' @ decimal index"

definition update_clauses :: "'a list \<Rightarrow> (string \<times> string) list" where
  "update_clauses objKeys =
     map (\<lambda>index. (key_placeholder index, value_placeholder index)) [0..<length objKeys]"

definition attribute_names :: "json js_object \<Rightarrow> string js_object" where
  "attribute_names entries =
     foldl (\<lambda>acc (index, key). AList.update (key_placeholder index) key acc) []
       (enumerate 0 (map fst entries))"

definition attribute_values :: "json js_object \<Rightarrow> json js_object" where
  "attribute_values entries =
     foldl (\<lambda>acc (index, v). AList.update (value_placeholder index) v acc) []
       (enumerate 0 (map snd entries))"

text \<open>
  \<^verbatim>\<open>updateProduct(event)\<close>, in the order of the source: the body is parsed, its keys
  are listed, the log line prints \<^verbatim>\<open>`${requestBody}`\<close>, the key is marshalled from the
  path, the expression and the names are generated, the values are marshalled, and the
  command is sent. Each of these steps throws or goes on.
\<close>

definition updateProduct :: "event \<Rightarrow> table \<Rightarrow> (error + response) \<times> table" where
  "updateProduct ev tbl =
     (case body ev of
        None \<Rightarrow> (Inl SyntaxError, tbl)
      | Some requestBody \<Rightarrow>
          (case own_entries requestBody of
             Inl e \<Rightarrow> (Inl e, tbl)
           | Inr entries \<Rightarrow>
               if toString_throws requestBody then (Inl TypeError, tbl)
               else
                 (case pathParameters ev of
                    None \<Rightarrow> (Inl TypeError, tbl)
                  | Some pid \<Rightarrow>
                      (case marshall [(''id'', JStr pid)] of
                         Inl e \<Rightarrow> (Inl e, tbl)
                       | Inr Key \<Rightarrow>
                           (case marshall (attribute_values entries) of
                              Inl e \<Rightarrow> (Inl e, tbl)
                            | Inr vals \<Rightarrow>
                                send (UpdateItemCommand Key
                                        (SET (update_clauses (map fst entries)))
                                        (attribute_names entries) vals) tbl)))))"


text \<open>
  The invariant of the table: an item is stored under the value of its own \<^verbatim>\<open>id\<close>.
\<close>

definition table_wf :: "table \<Rightarrow> bool" where
  "table_wf tbl = (\<forall>k it. tbl k = Some it \<longrightarrow> it ''id'' = Some (S k))"


section \<open>The basket service and its checkout\<close>

text \<open>
  The basket service (\<^verbatim>\<open>src/basket/index.js\<close>) is not under src/; its data and
  operations are taken from sections 3, 4.2, 4.3, 5 and 7 of the specification. Prices are
  exact rationals. The calls made to the event bus and the deletions asked of the store are
  recorded in order, each with its outcome, so that the order of effects can be stated.
\<close>

record basket_item =
  productId :: string
  productName :: string
  quantity :: nat
  price :: rat
  color :: string

text \<open>A basket; \<open>basketItems = None\<close> is a basket whose item list is null.\<close>

record basket =
  basketUserName :: string
  basketItems :: "basket_item list option"

record buyer =
  firstName :: string
  lastName :: string
  email :: string
  address :: string
  paymentMethod :: string

text \<open>The checkout request; \<open>requestUserName = None\<close> is a request without userName.\<close>

record checkout_request = buyer +
  requestUserName :: "string option"

record checkout_event = buyer +
  userName :: string
  totalPrice :: rat
  items :: "basket_item list"

datatype checkout_error = ValidationError | BusinessError | DependencyFailure

text \<open>
  The two successful outcomes: the basket was cleared, or the event was published and the
  deletion failed, which is reported as a success with a warning.
\<close>

datatype checkout_result = Cleared | ClearedWithWarning

text \<open>
  A call to a collaborator with its outcome: a publish on a bus with a source and a
  detail type, or the deletion of a user's basket.
\<close>

datatype call =
    PublishCall string string string checkout_event bool
  | DeleteCall string bool

text \<open>
  The configuration and the behaviour of the collaborators: whether the bus acknowledges a
  payload and whether the store carries out the deletion of a basket.
\<close>

record collaborators =
  eventBusName :: string
  eventSource :: string
  eventDetailType :: string
  busAccepts :: "checkout_event \<Rightarrow> bool"
  storeDeletes :: "string \<Rightarrow> bool"

record world =
  baskets :: "string \<rightharpoonup> basket"
  calls :: "call list"

text \<open>
  Modelled from the spec: \<^verbatim>\<open>getBasket\<close> of \<^verbatim>\<open>src/basket/index.js\<close>, which is not
  under src/. Section 4.2: \<^verbatim>\<open>get(userName)\<close>, a point lookup.
\<close>

definition getBasket :: "string \<Rightarrow> world \<Rightarrow> basket option" where
  "getBasket u w = baskets w u"

text \<open>
  Modelled from the spec: \<^verbatim>\<open>createBasket\<close> of \<^verbatim>\<open>src/basket/index.js\<close>, which is not
  under src/. Section 4.2: \<^verbatim>\<open>put(basket)\<close> replaces the whole basket of the user.
\<close>

definition createBasket :: "basket \<Rightarrow> world \<Rightarrow> world" where
  "createBasket b w = w\<lparr>baskets := (baskets w)(basketUserName b \<mapsto> b)\<rparr>"

text \<open>
  Modelled from the spec: \<^verbatim>\<open>deleteBasket\<close> of \<^verbatim>\<open>src/basket/index.js\<close>, which is not
  under src/. Section 4.2: \<^verbatim>\<open>delete(userName)\<close>; section 4.3 lets the deletion fail, in
  which case the basket stays.
\<close>

definition deleteBasket :: "collaborators \<Rightarrow> string \<Rightarrow> world \<Rightarrow> bool \<times> world" where
  "deleteBasket env u w =
     (if storeDeletes env u
      then (True, w\<lparr>baskets := (baskets w)(u := None), calls := calls w @ [DeleteCall u True]\<rparr>)
      else (False, w\<lparr>calls := calls w @ [DeleteCall u False]\<rparr>))"

text \<open>
  Modelled from the spec: the validation step of \<^verbatim>\<open>checkoutBasket\<close>, which is not under
  src/. Section 4.3, RECEIVED to VALIDATED: a validation error if userName is absent or empty.
\<close>

definition validate :: "checkout_request \<Rightarrow> checkout_error + string" where
  "validate req =
     (case requestUserName req of
        None \<Rightarrow> Inl ValidationError
      | Some u \<Rightarrow> if u = [] then Inl ValidationError else Inr u)"

text \<open>
  Modelled from the spec: the basket load of \<^verbatim>\<open>checkoutBasket\<close>, which is not under
  src/. Section 4.3, VALIDATED to BASKET_LOADED: fails if the basket is absent or its item
  list is empty or null; section 7 makes this a business error.
\<close>

definition loadBasket :: "string \<Rightarrow> world \<Rightarrow> checkout_error + basket_item list" where
  "loadBasket u w =
     (case getBasket u w of
        None \<Rightarrow> Inl BusinessError
      | Some b \<Rightarrow>
          (case basketItems b of
             None \<Rightarrow> Inl BusinessError
           | Some its \<Rightarrow> if its = [] then Inl BusinessError else Inr its))"

text \<open>
  Modelled from the spec: \<^verbatim>\<open>prepareOrderPayload\<close> of \<^verbatim>\<open>src/basket/index.js\<close>, which
  is not under src/. Section 4.3, BASKET_LOADED to PAYLOAD_BUILT: the total is the sum of
  each item's price, taken once per line; the items of the basket and the fields of the
  request are merged into one payload for the user.
\<close>

definition prepareOrderPayload ::
  "checkout_request \<Rightarrow> string \<Rightarrow> basket_item list \<Rightarrow> checkout_event" where
  "prepareOrderPayload req u its =
     \<lparr>firstName = firstName req, lastName = lastName req, email = email req,
      address = address req, paymentMethod = paymentMethod req,
      userName = u,
      totalPrice = foldl (\<lambda>total line. total + price line) 0 its,
      items = its\<rparr>"

text \<open>
  Modelled from the spec: \<^verbatim>\<open>publishCheckoutBasketEvent\<close> of \<^verbatim>\<open>src/basket/index.js\<close>,
  which is not under src/. Section 4.3, PAYLOAD_BUILT to EVENT_PUBLISHED: the payload is
  published with the configured source, detail type and bus name; the bus acknowledges or
  fails.
\<close>

definition publishCheckoutBasketEvent ::
  "collaborators \<Rightarrow> checkout_event \<Rightarrow> world \<Rightarrow> bool \<times> world" where
  "publishCheckoutBasketEvent env payload w =
     (let ack = busAccepts env payload
      in (ack, w\<lparr>calls := calls w @
                    [PublishCall (eventBusName env) (eventSource env) (eventDetailType env)
                       payload ack]\<rparr>))"

text \<open>
  Modelled from the spec: \<^verbatim>\<open>checkoutBasket\<close> of \<^verbatim>\<open>src/basket/index.js\<close>, which is not
  under src/. Section 4.3: validate, load the basket, build the payload, publish, and only
  then delete the basket. A failure before the publish returns the error without any effect;
  a failed publish aborts without deleting; a failed deletion after the publish is a success
  with a warning. Each step waits for the one before it (section 5).
\<close>

definition checkoutBasket ::
  "collaborators \<Rightarrow> checkout_request \<Rightarrow> world \<Rightarrow> (checkout_error + checkout_result) \<times> world" where
  "checkoutBasket env req w =
     (case validate req of
        Inl e \<Rightarrow> (Inl e, w)
      | Inr u \<Rightarrow>
          (case loadBasket u w of
             Inl e \<Rightarrow> (Inl e, w)
           | Inr its \<Rightarrow>
               (let (published, w1) =
                      publishCheckoutBasketEvent env (prepareOrderPayload req u its) w
                in if \<not> published then (Inl DependencyFailure, w1)
                   else
                     (let (deleted, w2) = deleteBasket env u w1
                      in (Inr (if deleted then Cleared else ClearedWithWarning), w2)))))"

section \<open>Example data\<close>

definition widget :: item where
  "widget = [''id'' \<mapsto> S ''p1'', ''name'' \<mapsto> S ''Widget'', ''price'' \<mapsto> N 10,
             ''category'' \<mapsto> S ''Garden Tools'']"

definition catalog :: table where
  "catalog = [''p1'' \<mapsto> widget]"

definition put_request :: "string \<Rightarrow> json \<Rightarrow> event" where
  "put_request pid b = \<lparr>pathParameters = Some pid, queryStringParameters = None, body = Some b\<rparr>"




definition alice_basket :: basket where
  "alice_basket =
     \<lparr>basketUserName = ''alice'',
      basketItems = Some
        [\<lparr>productId = ''p1'', productName = ''Hammer'', quantity = 3, price = 10, color = ''Red''\<rparr>,
         \<lparr>productId = ''p2'', productName = ''Saw'', quantity = 1, price = 20, color = ''Blue''\<rparr>]\<rparr>"

definition alice_request :: checkout_request where
  "alice_request =
     \<lparr>firstName = ''A'', lastName = '''', email = '''', address = '''', paymentMethod = '''',
      requestUserName = Some ''alice''\<rparr>"

definition reliable :: collaborators where
  "reliable =
     \<lparr>eventBusName = ''SwnEventBus'', eventSource = ''com.swn.basket.checkoutbasket'',
      eventDetailType = ''CheckoutBasket'', busAccepts = (\<lambda>_. True), storeDeletes = (\<lambda>_. True)\<rparr>"

definition bus_down :: collaborators where
  "bus_down = reliable\<lparr>busAccepts := (\<lambda>_. False)\<rparr>"

definition empty_world :: world where
  "empty_world = \<lparr>baskets = Map.empty, calls = []\<rparr>"

section \<open>Properties of the product service\<close>

lemma digit_char_inj: "digit_char a = digit_char b \<Longrightarrow> a mod 10 = b mod 10"
proof -
  assume eq: "digit_char a = digit_char b"
  have d: "distinct ''0123456789''" by simp
  have "a mod 10 < length ''0123456789''" and "b mod 10 < length ''0123456789''"
    by simp_all
  with d eq show ?thesis
    unfolding digit_char_def by (simp only: nth_eq_iff_index_eq)
qed

lemma decimal_nonempty: "decimal n \<noteq> []"
  by (subst decimal.simps) simp

lemma decimal_inj: "decimal n = decimal m \<Longrightarrow> n = m"
proof (induction n arbitrary: m rule: decimal.induct)
  case (1 n)
  from "1.prems"
  have hi: "(if n < 10 then [] else decimal (n div 10))
              = (if m < 10 then [] else decimal (m div 10))"
    and lo: "digit_char n = digit_char m"
    by (simp_all add: decimal.simps[of n] decimal.simps[of m])
  from lo have units: "n mod 10 = m mod 10"
    by (rule digit_char_inj)
  consider (small) "n < 10" "m < 10" | (left) "n < 10" "\<not> m < 10"
    | (right) "\<not> n < 10" "m < 10" | (big) "\<not> n < 10" "\<not> m < 10"
    by blast
  then show ?case
  proof cases
    case small
    with units show ?thesis by simp
  next
    case left
    with hi decimal_nonempty[of "m div 10"] show ?thesis by simp
  next
    case right
    with hi decimal_nonempty[of "n div 10"] show ?thesis by simp
  next
    case big
    with hi have "decimal (n div 10) = decimal (m div 10)" by simp
    from "1.IH"[OF big(1) this] have "n div 10 = m div 10" .
    with units show ?thesis
      by (metis div_mult_mod_eq)
  qed
qed

lemma key_placeholder_inj: "inj key_placeholder"
  by (auto simp: inj_def key_placeholder_def dest: decimal_inj)

lemma value_placeholder_inj: "inj value_placeholder"
  by (auto simp: inj_def value_placeholder_def dest: decimal_inj)

lemma update_fresh: "k \<notin> fst ` set al \<Longrightarrow> AList.update k v al = al @ [(k, v)]"
  by (induction al) auto

lemma foldl_update_placeholders:
  assumes "inj ph"
  shows "fst ` set acc \<subseteq> ph ` {..<n} \<Longrightarrow>
    foldl (\<lambda>acc (index, x). AList.update (ph index) x acc) acc (enumerate n xs)
      = acc @ map (\<lambda>(index, x). (ph index, x)) (enumerate n xs)"
proof (induction xs arbitrary: acc n)
  case Nil
  then show ?case by simp
next
  case (Cons x xs)
  have fresh: "ph n \<notin> fst ` set acc"
    using Cons.prems assms by (auto simp: inj_def)
  have sub: "fst ` set (acc @ [(ph n, x)]) \<subseteq> ph ` {..<Suc n}"
    using Cons.prems by (auto simp: less_Suc_eq)
  show ?case
    using Cons.IH[OF sub] by (simp add: update_fresh[OF fresh])
qed

lemma attribute_names_eq:
  "attribute_names entries =
     map (\<lambda>(index, key). (key_placeholder index, key)) (enumerate 0 (map fst entries))"
  unfolding attribute_names_def
  using foldl_update_placeholders[OF key_placeholder_inj, of "[]" 0] by simp

lemma attribute_values_eq:
  "attribute_values entries =
     map (\<lambda>(index, v). (value_placeholder index, v)) (enumerate 0 (map snd entries))"
  unfolding attribute_values_def
  using foldl_update_placeholders[OF value_placeholder_inj, of "[]" 0] by simp

lemma map_of_placeholders:
  assumes "inj ph" "i < length xs"
  shows "map_of (map (\<lambda>(index, x). (ph index, f x)) (enumerate n xs)) (ph (n + i)) = Some (f (xs ! i))"
  using assms(2)
proof (induction xs arbitrary: n i)
  case Nil
  then show ?case by simp
next
  case (Cons x xs)
  show ?case
  proof (cases i)
    case 0
    then show ?thesis by simp
  next
    case (Suc j)
    with Cons.prems have "j < length xs" by simp
    have "ph (Suc (n + j)) \<noteq> ph n"
      using assms(1) by (simp add: inj_eq)
    with Cons.IH[OF \<open>j < length xs\<close>, of "Suc n"] Suc show ?thesis
      by simp
  qed
qed

lemma collect_map_ex:
  "(\<forall>x\<in>set xs. \<exists>a. f x = Inr a \<and> h a = x) \<Longrightarrow>
     \<exists>as. collect (map f xs) = Inr as \<and> map h as = xs"
proof (induction xs)
  case Nil
  then show ?case by simp
next
  case (Cons x xs)
  then obtain a as where "f x = Inr a" "h a = x" "collect (map f xs) = Inr as" "map h as = xs"
    by auto
  then show ?case by simp
qed

lemma collect_entries_map_ex:
  "(\<forall>(k, v)\<in>set kvs. \<exists>a. f v = Inr a \<and> h a = v) \<Longrightarrow>
     \<exists>m. collect_entries (map (map_prod id f) kvs) = Inr m \<and> map (map_prod id h) m = kvs"
proof (induction kvs)
  case Nil
  then show ?case by simp
next
  case (Cons kv kvs)
  obtain k v where kv: "kv = (k, v)" by (cases kv)
  from Cons.prems kv obtain a where a: "f v = Inr a" "h a = v"
    by auto
  from Cons.prems have "\<forall>(k, v)\<in>set kvs. \<exists>a. f v = Inr a \<and> h a = v"
    by simp
  from Cons.IH[OF this] obtain m where
    m: "collect_entries (map (map_prod id f) kvs) = Inr m" "map (map_prod id h) m = kvs"
    by blast
  have one: "collect_entries (map (map_prod id f) (kv # kvs)) = Inr ((k, a) # m)"
    using kv a(1) m(1) by simp
  have two: "map (map_prod id h) ((k, a) # m) = kv # kvs"
    using kv a(2) m(2) by simp
  show ?case
    by (rule exI[of _ "(k, a) # m"]) (simp only: one two)
qed

lemma collect_entries_Inr:
  "collect_entries rs = Inr m \<Longrightarrow> rs = map (map_prod id Inr) m"
proof (induction rs arbitrary: m rule: collect_entries.induct)
  case 1
  then show ?case by simp
next
  case (2 k e rs)
  then show ?case by simp
next
  case (3 k a rs)
  then show ?case by (auto split: sum.splits)
qed


lemma collect_entries_keys:
  assumes "collect_entries (map (map_prod id f) kvs) = Inr m"
  shows "map fst m = map fst kvs"
proof -
  from collect_entries_Inr[OF assms]
  have "map fst (map (map_prod id f) kvs) = map fst (map (map_prod id Inr) m)" by simp
  then show ?thesis by simp
qed

lemma map_of_map_prod: "map_of (map (map_prod id g) xs) k = map_option g (map_of xs k)"
  by (induction xs) auto

lemma collect_entries_lookup:
  assumes "collect_entries (map (map_prod id f) kvs) = Inr m"
  shows "map_option f (map_of kvs k) = map_option Inr (map_of m k)"
proof -
  have "map_of (map (map_prod id f) kvs) k = map_of (map (map_prod id Inr) m) k"
    using collect_entries_Inr[OF assms] by simp
  then show ?thesis by (simp only: map_of_map_prod)
qed

lemma own_properties_id: "''__proto__'' \<notin> fst ` set kvs \<Longrightarrow> own_properties kvs = kvs"
  unfolding own_properties_def by (induction kvs) auto

lemma marshall_plain_object:
  assumes "map_of X ''constructor'' = None" and "''__proto__'' \<notin> fst ` set X"
  shows "marshall X = collect_entries (map (map_prod id convertToAttr) X)"
proof (cases "collect_entries (map (map_prod id convertToAttr) X)")
  case (Inl e)
  with assms(1) show ?thesis by (simp add: marshall_def object_attr_def)
next
  case (Inr m)
  from collect_entries_keys[OF Inr] assms(2) have "''__proto__'' \<notin> fst ` set m"
    by (metis set_map)
  then have "own_properties m = m" by (rule own_properties_id)
  with Inr assms(1) show ?thesis by (simp add: marshall_def object_attr_def)
qed

lemma marshall_id [simp]: "marshall [(''id'', JStr pid)] = Inr [(''id'', S pid)]"
  by (simp add: marshall_def object_attr_def own_properties_def)

lemma plain_converts: "plain j \<Longrightarrow> \<exists>a. convertToAttr j = Inr a \<and> convertToNative a = j"
proof (induction j)
  case (JArr xs)
  then have "\<forall>x\<in>set xs. \<exists>a. convertToAttr x = Inr a \<and> convertToNative a = x"
    by (auto simp: list_all_iff)
  from collect_map_ex[OF this] show ?case by auto
next
  case (JObj kvs)
  then have all: "\<forall>(k, v)\<in>set kvs. \<exists>a. convertToAttr v = Inr a \<and> convertToNative a = v"
    by (fastforce simp: list_all_iff)
  from collect_entries_map_ex[OF all] obtain m
    where m: "collect_entries (map (map_prod id convertToAttr) kvs) = Inr m"
      and rt: "map (map_prod id convertToNative) m = kvs"
    by blast
  from JObj.prems have c: "map_of kvs ''constructor'' = None"
    and p: "''__proto__'' \<notin> fst ` set kvs"
    by (simp_all add: map_of_eq_None_iff)
  from collect_entries_keys[OF m] p have "''__proto__'' \<notin> fst ` set m"
    by (metis set_map)
  then have o: "own_properties m = m" by (rule own_properties_id)
  have "convertToAttr (JObj kvs) = Inr (M m)"
    using m c o by (simp add: object_attr_def)
  moreover have "convertToNative (M m) = JObj kvs"
    using rt p by (simp add: own_properties_id)
  ultimately show ?case by blast
qed simp_all

lemma resolve_indexed:
  assumes "length ks = length as"
    and "\<And>i. i < length ks \<Longrightarrow> names (key_placeholder (n + i)) = Some (ks ! i)"
    and "\<And>i. i < length ks \<Longrightarrow> vals (value_placeholder (n + i)) = Some (as ! i)"
  shows "resolve names vals
           (map (\<lambda>index. (key_placeholder index, value_placeholder index)) [n..<n + length ks])
         = Some (zip ks as)"
  using assms
proof (induction ks as arbitrary: n rule: list_induct2)
  case Nil
  then show ?case by simp
next
  case (Cons k ks a as)
  have first: "names (key_placeholder n) = Some k" "vals (value_placeholder n) = Some a"
    using Cons.prems(1)[of 0] Cons.prems(2)[of 0] by simp_all
  have rest: "resolve names vals
                (map (\<lambda>index. (key_placeholder index, value_placeholder index))
                   [Suc n..<Suc n + length ks])
              = Some (zip ks as)"
  proof (rule Cons.IH)
    fix i assume "i < length ks"
    then show "names (key_placeholder (Suc n + i)) = Some (ks ! i)"
      using Cons.prems(1)[of "Suc i"] by simp
  next
    fix i assume "i < length ks"
    then show "vals (value_placeholder (Suc n + i)) = Some (as ! i)"
      using Cons.prems(2)[of "Suc i"] by simp
  qed
  have "[n..<n + length (k # ks)] = n # [Suc n..<n + length (k # ks)]"
    by (rule upt_conv_Cons) simp
  then have split: "[n..<n + length (k # ks)] = n # [Suc n..<Suc n + length ks]"
    by simp
  show ?case
    unfolding split using first rest by (simp del: upt_Suc)
qed

lemma value_placeholder_not_special:
  "value_placeholder i \<noteq> ''constructor''" "value_placeholder i \<noteq> ''__proto__''"
  by (simp_all add: value_placeholder_def)

lemma fst_attribute_values:
  "map fst (attribute_values entries) = map value_placeholder [0..<length entries]"
proof -
  have "fst \<circ> (\<lambda>(index, v :: json). (value_placeholder index, v)) = value_placeholder \<circ> fst"
    by (auto simp: fun_eq_iff)
  then have "map fst (attribute_values entries)
               = map (value_placeholder \<circ> fst) (enumerate 0 (map snd entries))"
    by (simp add: attribute_values_eq)
  also have "\<dots> = map value_placeholder (map fst (enumerate 0 (map snd entries)))"
    by (simp only: map_map)
  also have "\<dots> = map value_placeholder [0..<length entries]"
    by (simp add: map_fst_enumerate)
  finally show ?thesis .
qed

lemma snd_attribute_values: "map snd (attribute_values entries) = map snd entries"
proof -
  have "snd \<circ> (\<lambda>(index, v :: json). (value_placeholder index, v)) = snd"
    by (auto simp: fun_eq_iff)
  then have "map snd (attribute_values entries) = map snd (enumerate 0 (map snd entries))"
    by (simp add: attribute_values_eq)
  then show ?thesis
    by (simp add: map_snd_enumerate)
qed

lemma marshall_attribute_values:
  "marshall (attribute_values entries)
     = collect_entries (map (map_prod id convertToAttr) (attribute_values entries))"
proof (rule marshall_plain_object)
  have keys: "fst ` set (attribute_values entries) = value_placeholder ` {0..<length entries}"
    using fst_attribute_values[of entries] by (metis set_map set_upt)
  have "''constructor'' \<notin> value_placeholder ` {0..<length entries}"
    using value_placeholder_not_special(1) by (metis imageE)
  then show "map_of (attribute_values entries) ''constructor'' = None"
    by (simp add: map_of_eq_None_iff keys)
  have "''__proto__'' \<notin> value_placeholder ` {0..<length entries}"
    using value_placeholder_not_special(2) by (metis imageE)
  then show "''__proto__'' \<notin> fst ` set (attribute_values entries)"
    by (simp add: keys)
qed

lemma marshalled_values:
  assumes "marshall (attribute_values entries) = Inr vals"
  shows "map fst vals = map value_placeholder [0..<length entries]"
    and "map convertToAttr (map snd entries) = map Inr (map snd vals)"
proof -
  from assms have c: "collect_entries (map (map_prod id convertToAttr) (attribute_values entries))
                        = Inr vals"
    by (simp add: marshall_attribute_values)
  from collect_entries_keys[OF c] show "map fst vals = map value_placeholder [0..<length entries]"
    by (simp add: fst_attribute_values)
  from collect_entries_Inr[OF c]
  have "map snd (map (map_prod id convertToAttr) (attribute_values entries))
          = map snd (map (map_prod id Inr) vals)"
    by simp
  then have "map convertToAttr (map snd (attribute_values entries)) = map Inr (map snd vals)"
    by (simp add: comp_def)
  then show "map convertToAttr (map snd entries) = map Inr (map snd vals)"
    by (simp only: snd_attribute_values)
qed

lemma resolve_generated:
  assumes "map fst vals = map value_placeholder [0..<length entries]"
  shows "resolve (map_of (attribute_names entries)) (map_of vals)
           (update_clauses (map fst entries)) = Some (zip (map fst entries) (map snd vals))"
proof -
  have len: "length vals = length entries"
    using arg_cong[OF assms, of length] by simp
  have names: "map_of (attribute_names entries) (key_placeholder (0 + i))
                 = Some (map fst entries ! i)"
    if "i < length (map fst entries)" for i
    using map_of_placeholders[OF key_placeholder_inj, of i "map fst entries" id 0] that
    by (simp add: attribute_names_eq)
  have d: "distinct (map fst vals)"
    unfolding assms using value_placeholder_inj
    by (simp add: distinct_map inj_on_def inj_def)
  have vals: "map_of vals (value_placeholder (0 + i)) = Some (map snd vals ! i)"
    if "i < length (map fst entries)" for i
  proof -
    from that len have i: "i < length vals" by simp
    have "fst (vals ! i) = map fst vals ! i"
      using i by simp
    also have "\<dots> = value_placeholder i"
      using i len by (simp add: assms)
    finally have "vals ! i = (value_placeholder i, snd (vals ! i))"
      by (simp add: prod_eq_iff)
    moreover have "vals ! i \<in> set vals"
      using i by simp
    ultimately have "(value_placeholder i, snd (vals ! i)) \<in> set vals"
      by simp
    with d have "map_of vals (value_placeholder i) = Some (snd (vals ! i))"
      by (rule map_of_is_SomeI)
    with i show ?thesis by simp
  qed
  have "length (map fst entries) = length (map snd vals)"
    using len by simp
  from resolve_indexed[OF this names vals] show ?thesis
    by (simp add: update_clauses_def)
qed

lemma key_of_id [simp]: "key_of [(''id'', S pid)] = Some pid"
  by simp

lemma update_clauses_Nil_iff [simp]: "update_clauses ks = [] \<longleftrightarrow> ks = []"
  by (simp add: update_clauses_def)

lemma updateProduct_sent:
  assumes "body ev = Some requestBody" and "own_entries requestBody = Inr entries"
    and "\<not> toString_throws requestBody"
    and "pathParameters ev = Some pid"
    and "marshall (attribute_values entries) = Inr vals"
  shows "updateProduct ev tbl =
    (if entries = [] \<or> ''id'' \<in> fst ` set entries \<or> \<not> distinct (map fst entries)
     then (Inl ValidationException, tbl)
     else (Inr metadata_only,
           tbl(pid \<mapsto> (case tbl pid of None \<Rightarrow> [''id'' \<mapsto> S pid] | Some it \<Rightarrow> it)
                        ++ map_of (zip (map fst entries) (map snd vals)))))"
proof -
  have len: "length vals = length entries"
    using arg_cong[OF marshalled_values(1)[OF assms(5)], of length] by simp
  have keys: "map fst (zip (map fst entries) (map snd vals)) = map fst entries"
    using len by simp
  show ?thesis
    using assms
    by (simp add: updateProduct_def resolve_generated[OF marshalled_values(1)[OF assms(5)]]
        keys split: option.split)
qed

lemma send_UpdateItem_cases:
  assumes "send (UpdateItemCommand Key (SET cl) nm vl) tbl = (res, tbl')"
  shows "tbl' = tbl \<or>
     (\<exists>k asg. key_of Key = Some k \<and> ''id'' \<notin> fst ` set asg \<and>
        tbl' = tbl(k \<mapsto> (case tbl k of None \<Rightarrow> map_of Key | Some it \<Rightarrow> it) ++ map_of asg))"
proof (cases "key_of Key")
  case None
  with assms show ?thesis by simp
next
  case (Some k)
  show ?thesis
  proof (cases "resolve (map_of nm) (map_of vl) cl")
    case None
    with Some assms show ?thesis by (simp split: if_splits)
  next
    case asg: (Some asg)
    show ?thesis
    proof (cases "cl = [] \<or> ''id'' \<in> set (map fst asg) \<or> \<not> distinct (map fst asg)")
      case True
      with Some asg assms have "tbl' = tbl" by (auto split: if_splits)
      then show ?thesis ..
    next
      case False
      with Some asg assms
      have "tbl' = tbl(k \<mapsto> (case tbl k of None \<Rightarrow> map_of Key | Some it \<Rightarrow> it) ++ map_of asg)"
        by auto
      moreover from False have "''id'' \<notin> fst ` set asg" by simp
      ultimately show ?thesis using Some by blast
    qed
  qed
qed

lemma updateProduct_cases:
  assumes "updateProduct ev tbl = (res, tbl')"
  shows "tbl' = tbl \<or>
     (\<exists>pid asg. pathParameters ev = Some pid \<and> ''id'' \<notin> fst ` set asg \<and>
        tbl' = tbl(pid \<mapsto> (case tbl pid of None \<Rightarrow> [''id'' \<mapsto> S pid] | Some it \<Rightarrow> it)
                        ++ map_of asg))"
proof (cases "body ev")
  case None
  with assms show ?thesis by (simp add: updateProduct_def)
next
  case (Some requestBody)
  note b = this
  show ?thesis
  proof (cases "own_entries requestBody")
    case (Inl e)
    with b assms show ?thesis by (simp add: updateProduct_def)
  next
    case (Inr entries)
    note en = this
    show ?thesis
    proof (cases "toString_throws requestBody \<or> pathParameters ev = None")
      case True
      with b en assms have "tbl' = tbl"
        by (cases "toString_throws requestBody") (simp_all add: updateProduct_def)
      then show ?thesis ..
    next
      case False
      then obtain pid where p: "pathParameters ev = Some pid" and t: "\<not> toString_throws requestBody"
        by auto
      show ?thesis
      proof (cases "marshall (attribute_values entries)")
        case (Inl e)
        with b en p t assms show ?thesis by (simp add: updateProduct_def)
      next
        case (Inr vals)
        with b en p t assms
        have "send (UpdateItemCommand [(''id'', S pid)] (SET (update_clauses (map fst entries)))
                      (attribute_names entries) vals) tbl = (res, tbl')"
          by (simp add: updateProduct_def)
        from send_UpdateItem_cases[OF this]
        have "tbl' = tbl \<or>
          (\<exists>asg. ''id'' \<notin> fst ` set asg \<and>
             tbl' = tbl(pid \<mapsto> (case tbl pid of None \<Rightarrow> map_of [(''id'', S pid)]
                                  | Some it \<Rightarrow> it) ++ map_of asg))"
          by simp
        moreover have "(case tbl pid of None \<Rightarrow> map_of [(''id'', S pid)] | Some it \<Rightarrow> it)
                = (case tbl pid of None \<Rightarrow> [''id'' \<mapsto> S pid] | Some it \<Rightarrow> it)"
          by (simp split: option.split)
        ultimately show ?thesis
          using p by (simp only:) blast
      qed
    qed
  qed
qed

lemma marshall_values_plain:
  assumes "\<forall>v \<in> snd ` set entries. plain v"
  shows "\<exists>vals. marshall (attribute_values entries) = Inr vals"
proof -
  have "snd ` set (attribute_values entries) = snd ` set entries"
    using snd_attribute_values[of entries] by (metis set_map)
  with assms have "\<forall>(k, v)\<in>set (attribute_values entries).
                     \<exists>a. convertToAttr v = Inr a \<and> convertToNative a = v"
    by (force intro: plain_converts)
  from collect_entries_map_ex[OF this] show ?thesis
    by (auto simp: marshall_attribute_values)
qed




lemma table_wf_catalog: "table_wf catalog"
  by (simp add: table_wf_def catalog_def widget_def)

lemma table_wf_empty: "table_wf Map.empty"
  by (simp add: table_wf_def)

lemma send_PutItem_table_wf:
  assumes "table_wf tbl" and "send (PutItemCommand obj) tbl = (res, tbl')"
  shows "table_wf tbl'"
proof (cases "item_key obj")
  case None
  with assms show ?thesis by simp
next
  case (Some k)
  then have "map_of obj ''id'' = Some (S k)"
    by (auto simp: item_key_def split: option.splits attr.splits)
  with assms Some show ?thesis
    by (auto simp: table_wf_def split: if_splits)
qed

lemma createProduct_table_wf:
  assumes "table_wf tbl" and "createProduct rnds ev tbl = (res, tbl')"
  shows "table_wf tbl'"
proof (cases "\<exists>productRequest obj. body ev = Some (JObj productRequest) \<and>
          marshall (AList.update ''id'' (JStr (uuidv4 rnds)) productRequest) = Inr obj")
  case True
  then obtain productRequest obj where "body ev = Some (JObj productRequest)"
    "marshall (AList.update ''id'' (JStr (uuidv4 rnds)) productRequest) = Inr obj"
    by blast
  with assms(2) have "send (PutItemCommand obj) tbl = (res, tbl')"
    by (simp add: createProduct_def Let_def)
  with assms(1) show ?thesis by (rule send_PutItem_table_wf)
next
  case False
  with assms(2) have "tbl' = tbl"
    by (auto simp: createProduct_def Let_def split: option.splits json.splits sum.splits)
  with assms(1) show ?thesis by simp
qed

lemma deleteProduct_table_wf:
  assumes "table_wf tbl" and "deleteProduct pid tbl = (res, tbl')"
  shows "table_wf tbl'"
  using assms by (auto simp: deleteProduct_def table_wf_def split: if_splits)

lemma placeholders_0: "key_placeholder 0 = ''#key0''" "value_placeholder 12 = '':value12''"
  by code_simp+


lemma length_byteToHex [simp]: "length (byteToHex b) = 2"
  by (simp add: byteToHex_def)













text \<open>
  C4 (id immutability). Whatever the body of an update request holds, an \<^verbatim>\<open>id\<close> entry
  included, \<open>updateProduct\<close> keeps every stored record under its own id: the table
  invariant survives, and a record that was stored under the id \<open>X\<close> of the path is still
  there afterwards with \<^verbatim>\<open>id\<close> equal to \<open>X\<close>.
\<close>

theorem updateProduct_id_immutable:
  assumes "table_wf tbl" and "updateProduct ev tbl = (res, tbl')"
  shows "table_wf tbl' \<and>
         (\<forall>X it. pathParameters ev = Some X \<and> tbl X = Some it \<longrightarrow>
            (\<exists>it'. tbl' X = Some it' \<and> it' ''id'' = Some (S X)))"
proof -
  from updateProduct_cases[OF assms(2)]
  consider (same) "tbl' = tbl"
    | (merged) pid asg where "pathParameters ev = Some pid" "''id'' \<notin> fst ` set asg"
        "tbl' = tbl(pid \<mapsto> (case tbl pid of None \<Rightarrow> [''id'' \<mapsto> S pid] | Some it \<Rightarrow> it)
                        ++ map_of asg)"
    by blast
  then show ?thesis
  proof cases
    case same
    with assms(1) show ?thesis by (auto simp: table_wf_def)
  next
    case merged
    from merged(2) have none: "map_of asg ''id'' = None"
      by (simp add: map_of_eq_None_iff)
    have keep: "((case tbl pid of None \<Rightarrow> [''id'' \<mapsto> S pid] | Some it \<Rightarrow> it)
                  ++ map_of asg) ''id'' = Some (S pid)"
      using assms(1) none
      by (auto simp: map_add_def table_wf_def split: option.splits)
    have wf: "table_wf tbl'"
      unfolding table_wf_def
    proof (intro allI impI)
      fix k it assume "tbl' k = Some it"
      then show "it ''id'' = Some (S k)"
        using keep assms(1) merged(3) by (cases "k = pid") (auto simp: table_wf_def)
    qed
    moreover have "\<exists>it'. tbl' X = Some it' \<and> it' ''id'' = Some (S X)"
      if "pathParameters ev = Some X" for X
      using that merged(1,3) keep by simp
    ultimately show ?thesis by blast
  qed
qed

theorem updateProduct_id_immutable_witness:
  "table_wf catalog \<and>
   updateProduct (put_request ''p1'' (JObj [(''id'', JStr ''p2''), (''price'', JNum 42)])) catalog
     = (Inl ValidationException, catalog) \<and>
   (\<exists>it'. catalog ''p1'' = Some it' \<and> it' ''id'' = Some (S ''p1''))"
proof -
  let ?fm = "[(''id'', JStr ''p2''), (''price'', JNum 42)]"
  let ?ev = "put_request ''p1'' (JObj ?fm)"
  have b: "body ?ev = Some (JObj ?fm)" and p: "pathParameters ?ev = Some ''p1''"
    by (simp_all add: put_request_def)
  have e: "own_entries (JObj ?fm) = Inr ?fm" and t: "\<not> toString_throws (JObj ?fm)"
    by simp_all
  have "\<forall>v \<in> snd ` set ?fm. plain v"
    by (simp add: unsafe_number_def MAX_SAFE_INTEGER_def)
  from marshall_values_plain[OF this] obtain vals
    where m: "marshall (attribute_values ?fm) = Inr vals" ..
  have run: "updateProduct ?ev catalog = (Inl ValidationException, catalog)"
    by (simp add: updateProduct_sent[OF b e t p m])
  have old: "catalog ''p1'' = Some widget"
    by (simp add: catalog_def)
  from updateProduct_id_immutable[OF table_wf_catalog run] p old
  have "\<exists>it'. catalog ''p1'' = Some it' \<and> it' ''id'' = Some (S ''p1'')"
    by blast
  with table_wf_catalog run show ?thesis by blast
qed




text \<open>
  C10 (empty update). When the body is the empty JSON object the generated \<open>SET\<close>
  expression has no clause, \<open>updateProduct\<close> reports an error (the store's
  \<open>ValidationException\<close> whenever the path carries an id) and the table is unchanged.
\<close>

theorem updateProduct_empty_body_fails:
  assumes "body ev = Some (JObj [])"
  shows "update_clauses (map fst ([] :: json js_object)) = [] \<and>
         (\<exists>e. updateProduct ev tbl = (Inl e, tbl) \<and>
              (pathParameters ev \<noteq> None \<longrightarrow> e = ValidationException))"
proof -
  have "marshall (attribute_values []) = Inr []"
    unfolding marshall_attribute_values
    by (simp add: attribute_values_eq)
  with assms show ?thesis
    by (cases "pathParameters ev") (simp_all add: updateProduct_def update_clauses_def)
qed

theorem updateProduct_empty_body_fails_witness:
  "updateProduct (put_request ''p1'' (JObj [])) catalog = (Inl ValidationException, catalog)"
proof -
  let ?ev = "put_request ''p1'' (JObj [])"
  have "body ?ev = Some (JObj [])" and "pathParameters ?ev \<noteq> None"
    by (simp_all add: put_request_def)
  with updateProduct_empty_body_fails[of ?ev catalog] show ?thesis by auto
qed

text \<open>
  C6 (idempotent delete). \<open>deleteProduct\<close> always succeeds and removes the record; a
  second deletion succeeds as well and leaves the table as the first one left it; deleting an
  id that is not stored succeeds and changes nothing.
\<close>

theorem deleteProduct_idempotent:
  "deleteProduct pid tbl = (Inr metadata_only, tbl(pid := None)) \<and>
   deleteProduct pid (snd (deleteProduct pid tbl))
     = (Inr metadata_only, snd (deleteProduct pid tbl)) \<and>
   (tbl pid = None \<longrightarrow> deleteProduct pid tbl = (Inr metadata_only, tbl))"
  by (auto simp: deleteProduct_def)

theorem deleteProduct_idempotent_witness:
  "deleteProduct ''p1'' catalog = (Inr metadata_only, Map.empty) \<and>
   deleteProduct ''p1'' Map.empty = (Inr metadata_only, Map.empty)"
proof -
  have "(Map.empty :: table) ''p1'' = None" by simp
  with deleteProduct_idempotent[of "''p1''" Map.empty] deleteProduct_idempotent[of "''p1''" catalog]
  show ?thesis by (simp add: catalog_def)
qed








section \<open>Properties of the checkout\<close>

lemma foldl_price: "foldl (\<lambda>total line. total + price line) a its = a + sum_list (map price its)"
  by (induction its arbitrary: a) (simp_all add: add.assoc)

lemma totalPrice_prepareOrderPayload:
  "totalPrice (prepareOrderPayload req u its) = sum_list (map price its)"
  by (simp add: prepareOrderPayload_def foldl_price)

lemma checkoutBasket_shapes:
  "(checkoutBasket env req w = (Inl ValidationError, w) \<or>
    checkoutBasket env req w = (Inl BusinessError, w)) \<or>
   (\<exists>payload.
      fst (checkoutBasket env req w) = Inl DependencyFailure \<and>
      baskets (snd (checkoutBasket env req w)) = baskets w \<and>
      calls (snd (checkoutBasket env req w)) =
        calls w @ [PublishCall (eventBusName env) (eventSource env) (eventDetailType env)
                     payload False]) \<or>
   (\<exists>payload u ok res.
      fst (checkoutBasket env req w) = Inr res \<and>
      calls (snd (checkoutBasket env req w)) =
        calls w @ [PublishCall (eventBusName env) (eventSource env) (eventDetailType env)
                     payload True, DeleteCall u ok])"
proof (cases "validate req")
  case (Inl e)
  then have "e = ValidationError"
    by (auto simp: validate_def split: option.splits if_splits)
  with Inl show ?thesis by (simp add: checkoutBasket_def)
next
  case (Inr u)
  show ?thesis
  proof (cases "loadBasket u w")
    case (Inl e)
    then have "e = BusinessError"
      by (auto simp: loadBasket_def split: option.splits if_splits)
    with Inl Inr show ?thesis by (simp add: checkoutBasket_def)
  next
    case its: (Inr its)
    let ?p = "prepareOrderPayload req u its"
    show ?thesis
    proof (cases "busAccepts env ?p")
      case False
      with Inr its have "fst (checkoutBasket env req w) = Inl DependencyFailure"
        and "baskets (snd (checkoutBasket env req w)) = baskets w"
        and "calls (snd (checkoutBasket env req w)) =
               calls w @ [PublishCall (eventBusName env) (eventSource env) (eventDetailType env)
                            ?p False]"
        by (simp_all add: checkoutBasket_def publishCheckoutBasketEvent_def Let_def)
      then show ?thesis by blast
    next
      case True
      with Inr its have "fst (checkoutBasket env req w)
                 = Inr (if storeDeletes env u then Cleared else ClearedWithWarning)"
        and "calls (snd (checkoutBasket env req w)) =
               calls w @ [PublishCall (eventBusName env) (eventSource env) (eventDetailType env)
                            ?p True, DeleteCall u (storeDeletes env u)]"
        by (simp_all add: checkoutBasket_def publishCheckoutBasketEvent_def deleteBasket_def
            Let_def)
      then show ?thesis by blast
    qed
  qed
qed

text \<open>
  C1 (total price). When the request names a user whose basket has items, the checkout
  publishes one payload: it carries the items of the basket, and its \<open>totalPrice\<close> is the
  sum of the \<open>price\<close> of each line, taken once, whatever the quantities of the lines are.
\<close>

theorem checkout_totalPrice:
  assumes "requestUserName req = Some u" and "u \<noteq> []"
    and "baskets w u = Some b" and "basketItems b = Some its" and "its \<noteq> []"
  shows "\<exists>payload ack rest.
           calls (snd (checkoutBasket env req w))
             = calls w @ PublishCall (eventBusName env) (eventSource env) (eventDetailType env)
                           payload ack # rest \<and>
           (\<forall>c \<in> set rest. \<forall>bus src dt p a. c \<noteq> PublishCall bus src dt p a) \<and>
           items payload = its \<and>
           totalPrice payload = sum_list (map price its) \<and>
           (\<forall>q. totalPrice payload = sum_list (map (\<lambda>line. price (line\<lparr>quantity := q line\<rparr>)) its))"
proof -
  let ?p = "prepareOrderPayload req u its"
  have v: "validate req = Inr u"
    using assms(1,2) by (simp add: validate_def)
  have l: "loadBasket u w = Inr its"
    using assms(3,4,5) by (simp add: loadBasket_def getBasket_def)
  have t: "totalPrice ?p = sum_list (map price its)"
    by (rule totalPrice_prepareOrderPayload)
  have i: "items ?p = its"
    by (simp add: prepareOrderPayload_def)
  have "\<exists>rest. calls (snd (checkoutBasket env req w))
             = calls w @ PublishCall (eventBusName env) (eventSource env) (eventDetailType env)
                           ?p (busAccepts env ?p) # rest \<and>
           (\<forall>c \<in> set rest. \<forall>bus src dt p a. c \<noteq> PublishCall bus src dt p a)"
    by (simp add: checkoutBasket_def v l publishCheckoutBasketEvent_def deleteBasket_def Let_def)
  with t i show ?thesis by auto
qed

theorem checkout_totalPrice_witness:
  "\<exists>payload.
     calls (snd (checkoutBasket reliable alice_request (createBasket alice_basket empty_world)))
       = [PublishCall ''SwnEventBus'' ''com.swn.basket.checkoutbasket'' ''CheckoutBasket''
            payload True,
          DeleteCall ''alice'' True] \<and>
     totalPrice payload = 30 \<and> length (items payload) = 2 \<and> firstName payload = ''A'' \<and>
     getBasket ''alice''
       (snd (checkoutBasket reliable alice_request (createBasket alice_basket empty_world))) = None"
proof -
  let ?w = "createBasket alice_basket empty_world"
  let ?its = "[\<lparr>productId = ''p1'', productName = ''Hammer'', quantity = 3, price = 10,
                 color = ''Red''\<rparr>,
               \<lparr>productId = ''p2'', productName = ''Saw'', quantity = 1, price = 20,
                 color = ''Blue''\<rparr>]"
  let ?run = "snd (checkoutBasket reliable alice_request ?w)"
  have a: "requestUserName alice_request = Some ''alice''" and b: "''alice'' \<noteq> []"
    and c: "baskets ?w ''alice'' = Some alice_basket"
    and d: "basketItems alice_basket = Some ?its" and e: "?its \<noteq> []"
    by (simp_all add: alice_request_def createBasket_def alice_basket_def)
  have bus: "eventBusName reliable = ''SwnEventBus''"
    "eventSource reliable = ''com.swn.basket.checkoutbasket''"
    "eventDetailType reliable = ''CheckoutBasket''"
    by (simp_all add: reliable_def)
  have before: "calls ?w = []"
    by (simp add: createBasket_def empty_world_def)
  from checkout_totalPrice[OF a b c d e, of reliable]
  obtain payload ack rest where
    trace: "calls ?run = calls ?w @ PublishCall (eventBusName reliable) (eventSource reliable)
                           (eventDetailType reliable) payload ack # rest"
    and its: "items payload = ?its"
    and total: "totalPrice payload = sum_list (map price ?its)"
    by (elim exE conjE)
  have after: "calls ?run =
      [PublishCall ''SwnEventBus'' ''com.swn.basket.checkoutbasket'' ''CheckoutBasket''
         (prepareOrderPayload alice_request ''alice'' ?its) True,
       DeleteCall ''alice'' True]"
    and gone: "getBasket ''alice'' ?run = None"
    by (simp_all add: checkoutBasket_def validate_def loadBasket_def getBasket_def
        createBasket_def alice_request_def alice_basket_def empty_world_def reliable_def
        publishCheckoutBasketEvent_def deleteBasket_def Let_def)
  from trace after have "payload = prepareOrderPayload alice_request ''alice'' ?its"
    by (simp add: before bus)
  with after have shape: "calls ?run =
      [PublishCall ''SwnEventBus'' ''com.swn.basket.checkoutbasket'' ''CheckoutBasket''
         payload True, DeleteCall ''alice'' True]"
    by simp
  from total have "totalPrice payload = 30" by simp
  moreover from its have "length (items payload) = 2" by simp
  moreover from \<open>payload = prepareOrderPayload alice_request ''alice'' ?its\<close>
  have "firstName payload = ''A''"
    by (simp add: prepareOrderPayload_def alice_request_def)
  ultimately show ?thesis using shape gone by (intro exI[of _ payload]) simp
qed

text \<open>
  C2 (publish before delete). The calls a checkout adds are in this order: a deletion of the
  basket is attempted only after a publish that succeeded. When the publish fails, the
  checkout reports \<open>DependencyFailure\<close> and the baskets are what they were.
\<close>

theorem checkout_publish_before_delete:
  "\<exists>new. calls (snd (checkoutBasket env req w)) = calls w @ new \<and>
     (\<forall>i u ok. i < length new \<and> new ! i = DeleteCall u ok \<longrightarrow>
        (\<exists>j<i. \<exists>bus src dt payload. new ! j = PublishCall bus src dt payload True)) \<and>
     ((\<exists>bus src dt payload. PublishCall bus src dt payload False \<in> set new) \<longrightarrow>
        fst (checkoutBasket env req w) = Inl DependencyFailure \<and>
        baskets (snd (checkoutBasket env req w)) = baskets w)"
proof -
  let ?r = "checkoutBasket env req w"
  from checkoutBasket_shapes[of env req w]
  consider (early) "?r = (Inl ValidationError, w) \<or> ?r = (Inl BusinessError, w)"
    | (unpublished) payload where "fst ?r = Inl DependencyFailure"
        "baskets (snd ?r) = baskets w"
        "calls (snd ?r) = calls w @ [PublishCall (eventBusName env) (eventSource env)
                                       (eventDetailType env) payload False]"
    | (published) payload u ok res where "fst ?r = Inr res"
        "calls (snd ?r) = calls w @ [PublishCall (eventBusName env) (eventSource env)
                                       (eventDetailType env) payload True, DeleteCall u ok]"
    by blast
  then show ?thesis
  proof cases
    case early
    then have "calls (snd ?r) = calls w @ []" by auto
    then show ?thesis by (intro exI[of _ "[]"]) simp
  next
    case unpublished
    let ?new = "[PublishCall (eventBusName env) (eventSource env) (eventDetailType env)
                   payload False]"
    have "?new ! i \<noteq> DeleteCall u' ok'" if "i < length ?new" for i u' ok'
      using that by simp
    with unpublished show ?thesis
      by (intro exI[of _ ?new]) blast
  next
    case published
    let ?new = "[PublishCall (eventBusName env) (eventSource env) (eventDetailType env)
                   payload True, DeleteCall u ok]"
    have order: "\<exists>j<i. \<exists>bus src dt p. ?new ! j = PublishCall bus src dt p True"
      if "i < length ?new" "?new ! i = DeleteCall u' ok'" for i u' ok'
    proof -
      from that have "i = 1" by (cases i) simp_all
      then show ?thesis by (intro exI[of _ 0]) simp
    qed
    have none: "\<not> (\<exists>bus src dt p. PublishCall bus src dt p False \<in> set ?new)"
      by simp
    from published(2) order none show ?thesis
      by (intro exI[of _ ?new]) blast
  qed
qed

theorem checkout_publish_before_delete_witness:
  "fst (checkoutBasket bus_down alice_request (createBasket alice_basket empty_world))
     = Inl DependencyFailure \<and>
   getBasket ''alice''
     (snd (checkoutBasket bus_down alice_request (createBasket alice_basket empty_world)))
     = Some alice_basket \<and>
   (\<forall>u ok. DeleteCall u ok \<notin>
      set (calls (snd (checkoutBasket bus_down alice_request
                         (createBasket alice_basket empty_world)))))"
proof -
  let ?w = "createBasket alice_basket empty_world"
  let ?r = "checkoutBasket bus_down alice_request ?w"
  let ?its = "[\<lparr>productId = ''p1'', productName = ''Hammer'', quantity = 3, price = 10,
                 color = ''Red''\<rparr>,
               \<lparr>productId = ''p2'', productName = ''Saw'', quantity = 1, price = 20,
                 color = ''Blue''\<rparr>]"
  have after: "calls (snd ?r) =
      [PublishCall ''SwnEventBus'' ''com.swn.basket.checkoutbasket'' ''CheckoutBasket''
         (prepareOrderPayload alice_request ''alice'' ?its) False]"
    by (simp add: checkoutBasket_def validate_def loadBasket_def getBasket_def
        createBasket_def alice_request_def alice_basket_def empty_world_def reliable_def
        bus_down_def publishCheckoutBasketEvent_def Let_def)
  have before: "calls ?w = []" and stored: "getBasket ''alice'' ?w = Some alice_basket"
    by (simp_all add: createBasket_def empty_world_def getBasket_def alice_basket_def)
  from checkout_publish_before_delete[of bus_down alice_request ?w]
  obtain new where new: "calls (snd ?r) = calls ?w @ new"
    and failed: "(\<exists>bus src dt payload. PublishCall bus src dt payload False \<in> set new) \<longrightarrow>
        fst ?r = Inl DependencyFailure \<and> baskets (snd ?r) = baskets ?w"
    by (elim exE conjE)
  from new after before have "new =
      [PublishCall ''SwnEventBus'' ''com.swn.basket.checkoutbasket'' ''CheckoutBasket''
         (prepareOrderPayload alice_request ''alice'' ?its) False]"
    by simp
  then have "\<exists>bus src dt payload. PublishCall bus src dt payload False \<in> set new"
    by simp
  with failed have "fst ?r = Inl DependencyFailure" and "baskets (snd ?r) = baskets ?w"
    by simp_all
  with stored have "getBasket ''alice'' (snd ?r) = Some alice_basket"
    by (simp add: getBasket_def)
  moreover have "\<forall>u ok. DeleteCall u ok \<notin> set (calls (snd ?r))"
    by (simp add: after)
  ultimately show ?thesis using \<open>fst ?r = Inl DependencyFailure\<close> by simp
qed

text \<open>
  C3 (no checkout on an empty basket). For a request that names a user whose basket is absent
  or has a null or empty item list, the checkout fails with \<open>BusinessError\<close> and changes
  nothing: no call is made to the publisher.
\<close>

theorem checkout_empty_basket_fails:
  assumes "requestUserName req = Some u" and "u \<noteq> []"
    and "baskets w u = None \<or>
         (\<exists>b. baskets w u = Some b \<and> (basketItems b = None \<or> basketItems b = Some []))"
  shows "checkoutBasket env req w = (Inl BusinessError, w) \<and>
         calls (snd (checkoutBasket env req w)) = calls w"
proof -
  have "validate req = Inr u"
    using assms(1,2) by (simp add: validate_def)
  moreover have "loadBasket u w = Inl BusinessError"
    using assms(3) by (auto simp: loadBasket_def getBasket_def)
  ultimately show ?thesis
    by (simp add: checkoutBasket_def)
qed

theorem checkout_empty_basket_fails_witness:
  "checkoutBasket reliable alice_request empty_world = (Inl BusinessError, empty_world) \<and>
   checkoutBasket reliable alice_request
     (createBasket \<lparr>basketUserName = ''alice'', basketItems = Some []\<rparr> empty_world)
     = (Inl BusinessError,
        createBasket \<lparr>basketUserName = ''alice'', basketItems = Some []\<rparr> empty_world) \<and>
   calls empty_world = []"
proof -
  let ?b = "\<lparr>basketUserName = ''alice'', basketItems = Some []\<rparr>"
  have a: "requestUserName alice_request = Some ''alice''" and n: "''alice'' \<noteq> []"
    by (simp_all add: alice_request_def)
  have absent: "baskets empty_world ''alice'' = None \<or>
         (\<exists>b. baskets empty_world ''alice'' = Some b \<and>
              (basketItems b = None \<or> basketItems b = Some []))"
    by (simp add: empty_world_def)
  have empty: "baskets (createBasket ?b empty_world) ''alice'' = None \<or>
         (\<exists>b. baskets (createBasket ?b empty_world) ''alice'' = Some b \<and>
              (basketItems b = None \<or> basketItems b = Some []))"
    by (simp add: createBasket_def)
  from checkout_empty_basket_fails[OF a n absent, of reliable]
    checkout_empty_basket_fails[OF a n empty, of reliable]
  show ?thesis by (simp add: empty_world_def)
qed

end
